theory Spec2Isabelle
  imports Main "HOL-Library.Word"
begin

section \<open>Data model of c7a/data/buffer\_chain.hpp\<close>

text \<open>
  \<^verbatim>\<open>size_t\<close> is an unsigned 64-bit integer: addition wraps modulo \<open>2 ^ 64\<close>, and the
  order is the unsigned one. Bytes are 8-bit words.
\<close>

type_synonym size_t = "64 word"
type_synonym byte = "8 word"

text \<open>
  The failures the modelled code can raise: the \<^verbatim>\<open>assert\<close> in the constructor of
  \<^verbatim>\<open>BufferChainElement\<close> (the spec's \<^emph>\<open>Invariant\<close> error; assertions are modelled as
  enabled), the \<^verbatim>\<open>IoError\<close> thrown by \<^verbatim>\<open>THRILL_THROW_ERRNO\<close>, and the spec's
  \<^emph>\<open>Exhausted\<close> and \<^emph>\<open>Closed\<close> errors of iterators and emitters.
\<close>

datatype error = Invariant | IoError | Exhausted | Closed

text \<open>
  Modelled from the spec: \<^verbatim>\<open>BinaryBuffer\<close> and \<^verbatim>\<open>BinaryBufferBuilder\<close> are declared in
  c7a/data/binary\_buffer.hpp, which is not among the sources. A \<^verbatim>\<open>BinaryBuffer\<close> is
  an immutable byte region with structural equality; a \<^verbatim>\<open>BinaryBufferBuilder\<close> is a byte
  sink with an element count; \<^verbatim>\<open>BinaryBuffer(b)\<close> takes the builder's bytes and
  \<^verbatim>\<open>Detach\<close> resets the builder to empty.
\<close>

record BinaryBuffer =
  data :: "byte list"

record BinaryBufferBuilder =
  bytes :: "byte list"
  elements :: size_t

definition BinaryBuffer_null :: BinaryBuffer where
  "BinaryBuffer_null = \<lparr>data = []\<rparr>"

definition BinaryBuffer_of :: "BinaryBufferBuilder \<Rightarrow> BinaryBuffer" where
  "BinaryBuffer_of b = \<lparr>data = bytes b\<rparr>"

definition Detach :: "BinaryBufferBuilder \<Rightarrow> BinaryBufferBuilder" where
  "Detach b = \<lparr>bytes = [], elements = 0\<rparr>"

record BufferChainElement =
  buffer :: BinaryBuffer
  element_count :: size_t
  offset_of_first :: size_t

text \<open>
  The constructor \<^verbatim>\<open>BufferChainElement(b, element_count, offset = 0)\<close>; its assertion
  \<^verbatim>\<open>offset_of_first == 0\<close> is the branch \<open>Inl Invariant\<close>.
\<close>

definition mk_BufferChainElement ::
  "BinaryBuffer \<Rightarrow> size_t \<Rightarrow> size_t \<Rightarrow> error + BufferChainElement" where
  "mk_BufferChainElement b n off =
     (if off = 0 then Inr \<lparr>buffer = b, element_count = n, offset_of_first = off\<rparr>
      else Inl Invariant)"

text \<open>
  A \<^verbatim>\<open>BufferChain\<close>: the deque \<^verbatim>\<open>elements_\<close> (front first) and the flag \<^verbatim>\<open>closed_\<close>.
  The mutex and the condition variable carry no data and are left out.
\<close>

record BufferChain =
  elems :: "BufferChainElement list"
  closed :: bool

definition push_back :: "'a list \<Rightarrow> 'a \<Rightarrow> 'a list" where
  "push_back xs x = xs @ [x]"

fun pop_front :: "'a list \<Rightarrow> 'a list" where
  "pop_front [] = []"
| "pop_front (x # xs) = xs"

text \<open>
  The constructor. With libc++ or clang (\<open>clang = True\<close>) it pushes a dummy element and
  pops it again.
\<close>

definition BufferChain_new :: "bool \<Rightarrow> error + BufferChain" where
  "BufferChain_new clang =
     (if clang then
        (case mk_BufferChainElement BinaryBuffer_null 0 0 of
           Inl e \<Rightarrow> Inl e
         | Inr d \<Rightarrow> Inr \<lparr>elems = pop_front (push_back [] d), closed = False\<rparr>)
      else Inr \<lparr>elems = [], closed = False\<rparr>)"

text \<open>\<^verbatim>\<open>_size()\<close>, the unlocked size, and \<^verbatim>\<open>size()\<close>.\<close>

definition u_size :: "BufferChain \<Rightarrow> size_t" where
  "u_size c = (if elems c = [] then 0 else element_count (last (elems c)))"

definition size_chain :: "BufferChain \<Rightarrow> size_t" where
  "size_chain c = u_size c"

text \<open>\<^verbatim>\<open>Append(BinaryBufferBuilder&)\<close>: returns the chain and the detached builder.\<close>

definition Append ::
  "BufferChain \<Rightarrow> BinaryBufferBuilder \<Rightarrow> error + (BufferChain \<times> BinaryBufferBuilder)" where
  "Append c b =
     (case mk_BufferChainElement (BinaryBuffer_of b) (u_size c + elements b) 0 of
        Inl e \<Rightarrow> Inl e
      | Inr el \<Rightarrow> Inr (c\<lparr>elems := push_back (elems c) el\<rparr>, Detach b))"

text \<open>\<^verbatim>\<open>Append(BufferChainElement&&)\<close>.\<close>

definition Append_element :: "BufferChain \<Rightarrow> BufferChainElement \<Rightarrow> BufferChain" where
  "Append_element c e = c\<lparr>elems := push_back (elems c) e\<rparr>"

text \<open>
  \<^verbatim>\<open>Begin()\<close> and \<^verbatim>\<open>End()\<close>: a deque iterator is modelled by its position in the
  deque.
\<close>

definition Begin :: "BufferChain \<Rightarrow> nat" where
  "Begin c = 0"

definition End :: "BufferChain \<Rightarrow> nat" where
  "End c = length (elems c)"

definition Close :: "BufferChain \<Rightarrow> BufferChain" where
  "Close c = c\<lparr>closed := True\<rparr>"

definition IsClosed :: "BufferChain \<Rightarrow> bool" where
  "IsClosed c = closed c"

text \<open>A sequence of \<^verbatim>\<open>Append(BinaryBufferBuilder&)\<close> calls, one per builder.\<close>

fun Append_all :: "BufferChain \<Rightarrow> BinaryBufferBuilder list \<Rightarrow> error + BufferChain" where
  "Append_all c [] = Inr c"
| "Append_all c (b # bs) =
     (case Append c b of Inl e \<Rightarrow> Inl e | Inr (c', b') \<Rightarrow> Append_all c' bs)"

text \<open>
  Sequences of the two \<^verbatim>\<open>Append\<close> overloads. \<open>AppendElement buf n off\<close> is the call
  \<^verbatim>\<open>Append(BufferChainElement(buf, n, off))\<close>: the element is constructed at the call, as
  \<^verbatim>\<open>MoveTo\<close> does, and a failed assertion in the constructor ends the run.
\<close>

datatype chain_op =
  AppendBuilder BinaryBufferBuilder
| AppendElement BinaryBuffer size_t size_t

fun run_op :: "BufferChain \<Rightarrow> chain_op \<Rightarrow> error + BufferChain" where
  "run_op c (AppendBuilder b) =
     (case Append c b of Inl e \<Rightarrow> Inl e | Inr (c', b') \<Rightarrow> Inr c')"
| "run_op c (AppendElement buf n off) =
     (case mk_BufferChainElement buf n off of
        Inl e \<Rightarrow> Inl e
      | Inr el \<Rightarrow> Inr (Append_element c el))"

fun run_ops :: "BufferChain \<Rightarrow> chain_op list \<Rightarrow> error + BufferChain" where
  "run_ops c [] = Inr c"
| "run_ops c (x # xs) =
     (case run_op c x of Inl e \<Rightarrow> Inl e | Inr c' \<Rightarrow> run_ops c' xs)"

text \<open>
  The condition under which one operation cannot make the counts fall: a builder append
  whose sum does not wrap around, an element append whose count is not below the current
  \<^verbatim>\<open>size()\<close>.
\<close>

fun keeps_order :: "BufferChain \<Rightarrow> chain_op \<Rightarrow> bool" where
  "keeps_order c (AppendBuilder b) = (unat (u_size c) + unat (elements b) < 2 ^ 64)"
| "keeps_order c (AppendElement buf n off) = (off = 0 \<and> u_size c \<le> n)"

fun keep_order_all :: "BufferChain \<Rightarrow> chain_op list \<Rightarrow> bool" where
  "keep_order_all c [] = True"
| "keep_order_all c (x # xs) =
     (keeps_order c x \<and>
      (case run_op c x of Inl e \<Rightarrow> False | Inr c' \<Rightarrow> keep_order_all c' xs))"

subsection \<open>OrderedBufferChain\<close>

text \<open>
  \<^verbatim>\<open>std::map<size_t, std::vector<BufferChainElement>>\<close> is kept as an association list
  in the order in which the map is iterated, that is by ascending key. \<open>map_find\<close> is
  \<^verbatim>\<open>find\<close> (\<open>None\<close> for \<^verbatim>\<open>end()\<close>), \<open>map_assign\<close> is \<^verbatim>\<open>m[k] = v\<close>.
\<close>

type_synonym 'v std_map = "(size_t \<times> 'v) list"

fun map_find :: "'v std_map \<Rightarrow> size_t \<Rightarrow> 'v option" where
  "map_find [] k = None"
| "map_find ((k', v') # m) k = (if k = k' then Some v' else map_find m k)"

fun map_assign :: "'v std_map \<Rightarrow> size_t \<Rightarrow> 'v \<Rightarrow> 'v std_map" where
  "map_assign [] k v = [(k, v)]"
| "map_assign ((k', v') # m) k v =
     (if k < k' then (k, v) # (k', v') # m
      else if k = k' then (k, v) # m
      else (k', v') # map_assign m k v)"

record OrderedBufferChain =
  buffers :: "BufferChainElement list std_map"

definition OrderedBufferChain_new :: OrderedBufferChain where
  "OrderedBufferChain_new = \<lparr>buffers = []\<rparr>"

text \<open>\<^verbatim>\<open>OrderedBufferChain::Append(rank, b)\<close>.\<close>

definition OrderedBufferChain_Append ::
  "OrderedBufferChain \<Rightarrow> size_t \<Rightarrow> BinaryBufferBuilder \<Rightarrow>
     error + (OrderedBufferChain \<times> BinaryBufferBuilder)" where
  "OrderedBufferChain_Append obc rank b =
     (let m = (if map_find (buffers obc) rank = None
               then map_assign (buffers obc) rank [] else buffers obc)
      in case mk_BufferChainElement (BinaryBuffer_of b) (elements b) 0 of
           Inl e \<Rightarrow> Inl e
         | Inr el \<Rightarrow>
             (case map_find m rank of
                None \<Rightarrow> Inr (obc\<lparr>buffers := map_assign m rank (push_back [] el)\<rparr>, Detach b)
              | Some v \<Rightarrow> Inr (obc\<lparr>buffers := map_assign m rank (push_back v el)\<rparr>, Detach b)))"

text \<open>The element that \<^verbatim>\<open>OrderedBufferChain::Append\<close> stages for a builder.\<close>

definition staged_element :: "BinaryBufferBuilder \<Rightarrow> BufferChainElement" where
  "staged_element b =
     \<lparr>buffer = BinaryBuffer_of b, element_count = elements b, offset_of_first = 0\<rparr>"

fun OrderedBufferChain_Append_all ::
  "OrderedBufferChain \<Rightarrow> (size_t \<times> BinaryBufferBuilder) list \<Rightarrow> error + OrderedBufferChain" where
  "OrderedBufferChain_Append_all obc [] = Inr obc"
| "OrderedBufferChain_Append_all obc ((rank, b) # rbs) =
     (case OrderedBufferChain_Append obc rank b of
        Inl e \<Rightarrow> Inl e
      | Inr (obc', b') \<Rightarrow> OrderedBufferChain_Append_all obc' rbs)"

text \<open>
  \<^verbatim>\<open>MoveTo\<close>: the inner loop over one rank's vector and the outer loop over the map, both
  threading the local counter \<^verbatim>\<open>elements\<close>, which starts at 0.
\<close>

fun MoveTo_vector ::
  "BufferChainElement list \<Rightarrow> size_t \<Rightarrow> BufferChain \<Rightarrow> error + (size_t \<times> BufferChain)" where
  "MoveTo_vector [] n t = Inr (n, t)"
| "MoveTo_vector (buf_elem # rest) n t =
     (case mk_BufferChainElement (buffer buf_elem) (n + element_count buf_elem) 0 of
        Inl e \<Rightarrow> Inl e
      | Inr el \<Rightarrow> MoveTo_vector rest (n + element_count buf_elem) (Append_element t el))"

fun MoveTo_map ::
  "BufferChainElement list std_map \<Rightarrow> size_t \<Rightarrow> BufferChain \<Rightarrow>
     error + (size_t \<times> BufferChain)" where
  "MoveTo_map [] n t = Inr (n, t)"
| "MoveTo_map ((rank, v) # m) n t =
     (case MoveTo_vector v n t of
        Inl e \<Rightarrow> Inl e
      | Inr (n', t') \<Rightarrow> MoveTo_map m n' t')"

definition MoveTo :: "OrderedBufferChain \<Rightarrow> BufferChain \<Rightarrow> error + BufferChain" where
  "MoveTo obc target =
     (case MoveTo_map (buffers obc) 0 target of
        Inl e \<Rightarrow> Inl e
      | Inr (n, t) \<Rightarrow> Inr t)"

text \<open>
  What a transcription of staged elements looks like: the buffers in order, each with the
  running sum of the staged counts, starting from \<open>n\<close>.
\<close>

fun transcribed :: "size_t \<Rightarrow> BufferChainElement list \<Rightarrow> BufferChainElement list" where
  "transcribed n [] = []"
| "transcribed n (e # es) =
     \<lparr>buffer = buffer e, element_count = n + element_count e, offset_of_first = 0\<rparr> #
     transcribed (n + element_count e) es"

definition staged :: "OrderedBufferChain \<Rightarrow> BufferChainElement list" where
  "staged obc = concat (map snd (buffers obc))"

text \<open>The reserved offset is 0 in every element of a sequence.\<close>

definition offsets_zero :: "BufferChainElement list \<Rightarrow> bool" where
  "offsets_zero es = list_all (\<lambda>e. offset_of_first e = 0) es"

section \<open>Emitter, Iterator, Channel and Scatter\<close>

text \<open>
  Modelled from the spec: the record encoding of section 6, which is implemented in the
  serializers of c7a/data, not among the sources. A string is its length as a
  little-endian \<^verbatim>\<open>u32\<close> followed by its bytes.
\<close>

definition u32_le :: "32 word \<Rightarrow> byte list" where
  "u32_le w = [ucast w, ucast (drop_bit 8 w), ucast (drop_bit 16 w), ucast (drop_bit 24 w)]"

fun u32_of_le :: "byte list \<Rightarrow> 32 word option" where
  "u32_of_le [b0, b1, b2, b3] =
     Some (or (ucast b0) (or (push_bit 8 (ucast b1))
             (or (push_bit 16 (ucast b2)) (push_bit 24 (ucast b3)))))"
| "u32_of_le bs = None"

definition encode_string :: "string \<Rightarrow> byte list" where
  "encode_string s = u32_le (of_nat (length s)) @ map of_char s"

definition decode_string :: "byte list \<Rightarrow> nat \<Rightarrow> (string \<times> nat) option" where
  "decode_string bs cur =
     (case u32_of_le (take 4 (drop cur bs)) of
        None \<Rightarrow> None
      | Some w \<Rightarrow>
          if cur + 4 + unat w \<le> length bs
          then Some (map (\<lambda>b. char_of (unat b)) (take (unat w) (drop (cur + 4) bs)),
                     cur + 4 + unat w)
          else None)"

text \<open>
  Modelled from the spec: the \<^verbatim>\<open>Emitter\<close> of section 4.2 (c7a/data/emitter.hpp is not
  among the sources), here the local emitter of strings writing into the chain of a
  local DIA. \<^verbatim>\<open>emit\<close> serializes into the builder and flushes when the builder exceeds
  the block threshold of 32 KiB; \<^verbatim>\<open>flush\<close> appends a non-empty builder to the chain;
  \<^verbatim>\<open>close\<close> flushes and, being the only sender of a local chain, closes the chain.
  Emitting after \<^verbatim>\<open>close\<close> is the error \<open>Closed\<close>.
\<close>

record Emitter =
  em_builder :: BinaryBufferBuilder
  em_closed :: bool

definition Emitter_new :: Emitter where
  "Emitter_new = \<lparr>em_builder = \<lparr>bytes = [], elements = 0\<rparr>, em_closed = False\<rparr>"

definition block_threshold :: nat where
  "block_threshold = 32768"

definition Emitter_Flush :: "Emitter \<times> BufferChain \<Rightarrow> error + (Emitter \<times> BufferChain)" where
  "Emitter_Flush ec =
     (case ec of (em, c) \<Rightarrow>
        if bytes (em_builder em) = [] then Inr (em, c)
        else (case Append c (em_builder em) of
                Inl e \<Rightarrow> Inl e
              | Inr (c', b') \<Rightarrow> Inr (em\<lparr>em_builder := b'\<rparr>, c')))"

definition Emitter_emit ::
  "Emitter \<times> BufferChain \<Rightarrow> string \<Rightarrow> error + (Emitter \<times> BufferChain)" where
  "Emitter_emit ec x =
     (case ec of (em, c) \<Rightarrow>
        if em_closed em then Inl Closed
        else
          (let b = \<lparr>bytes = bytes (em_builder em) @ encode_string x,
                    elements = elements (em_builder em) + 1\<rparr>
           in if block_threshold < length (bytes b)
              then Emitter_Flush (em\<lparr>em_builder := b\<rparr>, c)
              else Inr (em\<lparr>em_builder := b\<rparr>, c)))"

definition Emitter_Close :: "Emitter \<times> BufferChain \<Rightarrow> error + (Emitter \<times> BufferChain)" where
  "Emitter_Close ec =
     (case Emitter_Flush ec of
        Inl e \<Rightarrow> Inl e
      | Inr (em, c) \<Rightarrow> Inr (em\<lparr>em_closed := True\<rparr>, Close c))"

text \<open>
  Modelled from the spec: the \<^verbatim>\<open>Iterator\<close> of section 4.3 (c7a/data/iterator.hpp is not
  among the sources): a block index, a cursor within the block, and the number of
  elements returned so far. A block holds the elements up to its cumulative
  \<^verbatim>\<open>element_count\<close> (section 3), so the current block has a next element when it has
  remaining bytes and the number of elements returned is below its \<^verbatim>\<open>element_count\<close>.
  \<^verbatim>\<open>has_next\<close> holds if the current block has a next element or a later block is
  present; \<^verbatim>\<open>next\<close> deserializes one string, advances the cursor and moves to the next
  block at a block boundary, and is the error \<open>Exhausted\<close> without a next element;
  \<^verbatim>\<open>is_finished\<close> holds when the chain is closed and the cursor has reached the end of
  the last block.
\<close>

record Iterator =
  it_block :: nat
  it_cursor :: nat
  it_count :: size_t

definition Iterator_new :: Iterator where
  "Iterator_new = \<lparr>it_block = 0, it_cursor = 0, it_count = 0\<rparr>"

definition block_has_next :: "BufferChainElement \<Rightarrow> nat \<Rightarrow> size_t \<Rightarrow> bool" where
  "block_has_next e cur cnt = (cur < length (data (buffer e)) \<and> cnt < element_count e)"

definition HasNext :: "BufferChain \<Rightarrow> Iterator \<Rightarrow> bool" where
  "HasNext c it =
     ((it_block it < length (elems c) \<and>
       block_has_next (elems c ! it_block it) (it_cursor it) (it_count it)) \<or>
      it_block it + 1 < length (elems c))"

fun next_in ::
  "BufferChainElement list \<Rightarrow> nat \<Rightarrow> nat \<Rightarrow> size_t \<Rightarrow> error + (string \<times> Iterator)" where
  "next_in [] blk cur cnt = Inl Exhausted"
| "next_in (e # es) blk cur cnt =
     (if block_has_next e cur cnt then
        (case decode_string (data (buffer e)) cur of
           None \<Rightarrow> Inl Invariant
         | Some (x, cur') \<Rightarrow>
             if block_has_next e cur' (cnt + 1)
             then Inr (x, \<lparr>it_block = blk, it_cursor = cur', it_count = cnt + 1\<rparr>)
             else Inr (x, \<lparr>it_block = blk + 1, it_cursor = 0, it_count = cnt + 1\<rparr>))
      else next_in es (blk + 1) 0 cnt)"

definition Next :: "BufferChain \<Rightarrow> Iterator \<Rightarrow> error + (string \<times> Iterator)" where
  "Next c it =
     next_in (drop (it_block it) (elems c)) (it_block it) (it_cursor it) (it_count it)"

definition IsFinished :: "BufferChain \<Rightarrow> Iterator \<Rightarrow> bool" where
  "IsFinished c it = (IsClosed c \<and> \<not> HasNext c it)"

text \<open>
  Modelled from the spec: the channel of sections 3 and 4.4 (c7a/net/channel.hpp and
  channel\_multiplexer.hpp are not among the sources): the target chain, the staging area
  of an ordered channel, and one closed bit per sender. On a close from a sender its bit
  is set; when all bits are set, an ordered channel merges its staging area into the
  target chain, and the target chain is closed.
\<close>

record Channel =
  target_chain :: BufferChain
  staging :: OrderedBufferChain
  closed_senders :: "bool list"
  ordered :: bool

definition AllocateNetworkChannel :: "bool \<Rightarrow> nat \<Rightarrow> bool \<Rightarrow> error + Channel" where
  "AllocateNetworkChannel clang N ord =
     (case BufferChain_new clang of
        Inl e \<Rightarrow> Inl e
      | Inr c \<Rightarrow> Inr \<lparr>target_chain = c, staging = OrderedBufferChain_new,
                       closed_senders = replicate N False, ordered = ord\<rparr>)"

definition channel_close :: "Channel \<Rightarrow> nat \<Rightarrow> error + Channel" where
  "channel_close ch sender =
     (let bits = (closed_senders ch)[sender := True] in
      if list_all (\<lambda>b. b) bits then
        (if ordered ch then
           (case MoveTo (staging ch) (target_chain ch) of
              Inl e \<Rightarrow> Inl e
            | Inr t \<Rightarrow> Inr (ch\<lparr>closed_senders := bits, target_chain := Close t\<rparr>))
         else Inr (ch\<lparr>closed_senders := bits, target_chain := Close (target_chain ch)\<rparr>))
      else Inr (ch\<lparr>closed_senders := bits\<rparr>))"

text \<open>
  Modelled from the spec: the wire messages of sections 4.4 and 6 and their handling by
  the multiplexer. \<open>ChannelData cid src n buf\<close> carries \<open>n\<close> records in the payload \<open>buf\<close>
  from sender \<open>src\<close>; it is staged under the sender's rank on an ordered channel and
  appended to the target chain otherwise. \<open>ChannelClose cid src\<close> is the sender's close.
\<close>

datatype frame =
  ChannelData nat nat size_t BinaryBuffer
| ChannelClose nat nat

fun channel_receive :: "Channel \<Rightarrow> frame \<Rightarrow> error + Channel" where
  "channel_receive ch (ChannelData cid src n buf) =
     (if ordered ch then
        (case OrderedBufferChain_Append (staging ch) (of_nat src)
                \<lparr>bytes = data buf, elements = n\<rparr> of
           Inl e \<Rightarrow> Inl e
         | Inr (st, b') \<Rightarrow> Inr (ch\<lparr>staging := st\<rparr>))
      else
        (case Append (target_chain ch) \<lparr>bytes = data buf, elements = n\<rparr> of
           Inl e \<Rightarrow> Inl e
         | Inr (t, b') \<Rightarrow> Inr (ch\<lparr>target_chain := t\<rparr>)))"
| "channel_receive ch (ChannelClose cid src) = channel_close ch src"

text \<open>The frames addressed to worker \<open>j\<close>, handled in the order of the list.\<close>

fun deliver :: "Channel \<Rightarrow> nat \<Rightarrow> (nat \<times> frame) list \<Rightarrow> error + Channel" where
  "deliver ch j [] = Inr ch"
| "deliver ch j ((dst, f) # fs) =
     (if dst = j then
        (case channel_receive ch f of
           Inl e \<Rightarrow> Inl e
         | Inr ch' \<Rightarrow> deliver ch' j fs)
      else deliver ch j fs)"

text \<open>
  Modelled from the spec: the scatter protocol of section 4.5 (\<^verbatim>\<open>Manager::Scatter\<close> in
  c7a/data/manager.hpp is not among the sources). For receiver \<open>j\<close> the range of the
  source from \<open>offsets[j-1]\<close> to \<open>offsets[j]\<close> is covered by blocks and intra-block cuts
  (steps 1 and 2), found through the cumulative counts: a block that lies inside the
  range is passed on as it is, a block that straddles an end of the range is cut at
  record boundaries to the records inside the range, and each block carries the number
  of its records in the range. Receiver \<open>j\<close> so gets exactly the records of its range, in
  order (P5, scenario 4). Edge case (b) of that section would send a straddling block
  whole; with \<^verbatim>\<open>offset_of_first\<close> fixed at 0 a whole block cannot tell its receiver
  where the receiver's records begin, so the cut of steps 1 and 2 is the one modelled.
  For \<open>j\<close> the worker itself the blocks are appended to the local target chain and the
  worker's close is recorded on the channel; for any other \<open>j\<close> they are sent as
  \<^verbatim>\<open>CHANNEL_DATA\<close> frames followed by \<^verbatim>\<open>CHANNEL_CLOSE\<close>, collected here as the list of
  outgoing frames with their receivers.
\<close>

fun skip_records :: "byte list \<Rightarrow> nat \<Rightarrow> nat \<Rightarrow> nat option" where
  "skip_records bs cur 0 = Some cur"
| "skip_records bs cur (Suc n) =
     (case decode_string bs cur of
        None \<Rightarrow> None
      | Some (x, cur') \<Rightarrow> skip_records bs cur' n)"

definition cut_block :: "BinaryBuffer \<Rightarrow> nat \<Rightarrow> nat \<Rightarrow> error + BinaryBuffer" where
  "cut_block buf skip n =
     (case skip_records (data buf) 0 skip of
        None \<Rightarrow> Inl Invariant
      | Some p \<Rightarrow>
          (case skip_records (data buf) p n of
             None \<Rightarrow> Inl Invariant
           | Some q \<Rightarrow> Inr \<lparr>data = take (q - p) (drop p (data buf))\<rparr>))"

fun blocks_in_range ::
  "size_t \<Rightarrow> size_t \<Rightarrow> size_t \<Rightarrow> BufferChainElement list \<Rightarrow>
     error + (BinaryBuffer \<times> size_t) list" where
  "blocks_in_range lo hi prev [] = Inr []"
| "blocks_in_range lo hi prev (e # es) =
     (case blocks_in_range lo hi (element_count e) es of
        Inl err \<Rightarrow> Inl err
      | Inr rest \<Rightarrow>
          if prev < hi \<and> lo < element_count e then
            (if lo \<le> prev \<and> element_count e \<le> hi
             then Inr ((buffer e, element_count e - prev) # rest)
             else
               (case cut_block (buffer e) (unat (max prev lo - prev))
                       (unat (min (element_count e) hi - max prev lo)) of
                  Inl err \<Rightarrow> Inl err
                | Inr b \<Rightarrow> Inr ((b, min (element_count e) hi - max prev lo) # rest)))
          else Inr rest)"

fun append_blocks :: "BufferChain \<Rightarrow> (BinaryBuffer \<times> size_t) list \<Rightarrow> error + BufferChain" where
  "append_blocks t [] = Inr t"
| "append_blocks t ((buf, n) # bs) =
     (case mk_BufferChainElement buf (u_size t + n) 0 of
        Inl e \<Rightarrow> Inl e
      | Inr el \<Rightarrow> append_blocks (Append_element t el) bs)"

fun Scatter_from ::
  "nat \<Rightarrow> nat \<Rightarrow> BufferChainElement list \<Rightarrow> size_t \<Rightarrow> nat \<Rightarrow> size_t list \<Rightarrow>
     Channel \<Rightarrow> (nat \<times> frame) list \<Rightarrow> error + (Channel \<times> (nat \<times> frame) list)" where
  "Scatter_from cid i src lo j [] ch out = Inr (ch, out)"
| "Scatter_from cid i src lo j (hi # offs) ch out =
     (case blocks_in_range lo hi 0 src of
        Inl e \<Rightarrow> Inl e
      | Inr blocks \<Rightarrow>
          if j = i then
            (case append_blocks (target_chain ch) blocks of
               Inl e \<Rightarrow> Inl e
             | Inr t \<Rightarrow>
                 (case channel_close (ch\<lparr>target_chain := t\<rparr>) i of
                    Inl e \<Rightarrow> Inl e
                  | Inr ch' \<Rightarrow> Scatter_from cid i src hi (j + 1) offs ch' out))
          else
            Scatter_from cid i src hi (j + 1) offs ch
              (out @ map (\<lambda>(buf, n). (j, ChannelData cid i n buf)) blocks @
               [(j, ChannelClose cid i)]))"

definition Scatter ::
  "nat \<Rightarrow> nat \<Rightarrow> BufferChain \<Rightarrow> size_t list \<Rightarrow> Channel \<Rightarrow>
     error + (Channel \<times> (nat \<times> frame) list)" where
  "Scatter cid i src offsets ch = Scatter_from cid i (elems src) 0 0 offsets ch []"

text \<open>
  The test \<^verbatim>\<open>Scatter_OneWorker\<close> of tests/data/manager\_channels\_test.cpp, statement by
  statement, on worker 0 of a group of one: the result holds the answer of the first
  \<^verbatim>\<open>HasNext\<close>, the three values returned by \<^verbatim>\<open>Next\<close>, the final \<^verbatim>\<open>IsFinished\<close>, and
  the frames sent to other workers.
\<close>

definition bind_err :: "error + 'a \<Rightarrow> ('a \<Rightarrow> error + 'b) \<Rightarrow> error + 'b" where
  "bind_err m f = (case m of Inl e \<Rightarrow> Inl e | Inr x \<Rightarrow> f x)"


text \<open>
  The test \<^verbatim>\<open>Scatter_ThreeWorkers_PartialExchange\<close> of the same file (scenario 4 of the
  spec): each worker fills its source and scatters it, the frames are handled by their
  receivers (sender by sender, each sender's frames in the order sent), and each worker
  reads two elements and asks \<^verbatim>\<open>IsFinished\<close>.
\<close>

definition emit_all :: "bool \<Rightarrow> string list \<Rightarrow> error + BufferChain" where
  "emit_all clang xs =
     bind_err (BufferChain_new clang) (\<lambda>src.
     bind_err (fold (\<lambda>x m. bind_err m (\<lambda>ec. Emitter_emit ec x)) xs (Inr (Emitter_new, src)))
       (\<lambda>ec.
     bind_err (Emitter_Close ec) (\<lambda>ec'. Inr (snd ec'))))"

definition read_two :: "BufferChain \<Rightarrow> error + (string \<times> string \<times> bool)" where
  "read_two c =
     bind_err (Next c Iterator_new) (\<lambda>(x1, it1).
     bind_err (Next c it1) (\<lambda>(x2, it2).
     Inr (x1, x2, IsFinished c it2)))"

definition Scatter_ThreeWorkers_PartialExchange ::
  "bool \<Rightarrow>
     error + ((string \<times> string \<times> bool) \<times> (string \<times> string \<times> bool) \<times> (string \<times> string \<times> bool))" where
  "Scatter_ThreeWorkers_PartialExchange clang =
     bind_err (AllocateNetworkChannel clang 3 True) (\<lambda>channel.
     bind_err (emit_all clang [''1'', ''2'']) (\<lambda>srca.
     bind_err (emit_all clang [''3'', ''4'', ''5'', ''6'']) (\<lambda>srcb.
     bind_err (emit_all clang []) (\<lambda>srcc.
     bind_err (Scatter 0 0 srca [2, 2, 2] channel) (\<lambda>(cha, senta).
     bind_err (Scatter 0 1 srcb [0, 2, 4] channel) (\<lambda>(chb, sentb).
     bind_err (Scatter 0 2 srcc [0, 0, 0] channel) (\<lambda>(chc, sentc).
     bind_err (deliver cha 0 (senta @ sentb @ sentc)) (\<lambda>cha'.
     bind_err (deliver chb 1 (senta @ sentb @ sentc)) (\<lambda>chb'.
     bind_err (deliver chc 2 (senta @ sentb @ sentc)) (\<lambda>chc'.
     bind_err (read_two (target_chain cha')) (\<lambda>ra.
     bind_err (read_two (target_chain chb')) (\<lambda>rb.
     bind_err (read_two (target_chain chc')) (\<lambda>rc.
     Inr (ra, rb, rc))))))))))))))"

section \<open>Data model of thrill/io/ufs\_file\_base.cpp\<close>

text \<open>
  The fields of \<^verbatim>\<open>UfsFileBase\<close> the file uses. The operating system is a state \<open>'os\<close>
  with the system call \<^verbatim>\<open>::close\<close> as a parameter \<open>sys_close\<close>, which returns the call's
  result and the new state. \<^verbatim>\<open>close()\<close> returns the thrown error or \<open>Inr ()\<close>, the object
  and the operating system's state.
\<close>

record UfsFileBase =
  file_des :: int
  m_mode :: int
  filename :: string
  m_is_device :: bool

definition UfsFileBase_close ::
  "('os \<Rightarrow> int \<Rightarrow> int \<times> 'os) \<Rightarrow> UfsFileBase \<Rightarrow> 'os \<Rightarrow>
     (error + unit) \<times> UfsFileBase \<times> 'os" where
  "UfsFileBase_close sys_close f os =
     (if file_des f = - 1 then (Inr (), f, os)
      else (case sys_close os (file_des f) of
              (rc, os') \<Rightarrow>
                if rc < 0 then (Inl IoError, f, os')
                else (Inr (), f\<lparr>file_des := - 1\<rparr>, os')))"

text \<open>The destructor calls \<^verbatim>\<open>close()\<close>.\<close>

definition UfsFileBase_destroy ::
  "('os \<Rightarrow> int \<Rightarrow> int \<times> 'os) \<Rightarrow> UfsFileBase \<Rightarrow> 'os \<Rightarrow>
     (error + unit) \<times> UfsFileBase \<times> 'os" where
  "UfsFileBase_destroy sys_close f os = UfsFileBase_close sys_close f os"

text \<open>
  A concrete operating system to run the model on: the list of open descriptors, where
  closing an open descriptor removes it and returns 0, and closing any other returns -1.
\<close>

definition fd_table_close :: "int list \<Rightarrow> int \<Rightarrow> int \<times> int list" where
  "fd_table_close os fd = (if fd \<in> set os then (0, removeAll fd os) else (- 1, os))"

section \<open>Basic facts\<close>

lemma push_back_snoc: "push_back xs x = xs @ [x]"
  by (simp add: push_back_def)

lemma mk_BufferChainElement_zero:
  "mk_BufferChainElement b n 0 = Inr \<lparr>buffer = b, element_count = n, offset_of_first = 0\<rparr>"
  by (simp add: mk_BufferChainElement_def)

lemma Append_eq:
  "Append c b =
     Inr (c\<lparr>elems := elems c @
            [\<lparr>buffer = BinaryBuffer_of b, element_count = u_size c + elements b,
              offset_of_first = 0\<rparr>]\<rparr>, Detach b)"
  by (simp add: Append_def mk_BufferChainElement_zero push_back_def)

lemma BufferChain_new_eq: "BufferChain_new clang = Inr \<lparr>elems = [], closed = False\<rparr>"
  by (simp add: BufferChain_new_def mk_BufferChainElement_zero push_back_def)

lemma u_size_snoc: "u_size (c\<lparr>elems := elems c @ [e]\<rparr>) = element_count e"
  by (simp add: u_size_def)

lemma Append_all_general:
  "\<exists>c'. Append_all c bs = Inr c' \<and> closed c' = closed c \<and>
        u_size c' = u_size c + sum_list (map elements bs)"
proof (induction bs arbitrary: c)
  case Nil
  show ?case by simp
next
  case (Cons b bs)
  let ?c1 = "c\<lparr>elems := elems c @
            [\<lparr>buffer = BinaryBuffer_of b, element_count = u_size c + elements b,
              offset_of_first = 0\<rparr>]\<rparr>"
  from Cons.IH [of ?c1] obtain c' where
    c': "Append_all ?c1 bs = Inr c'" "closed c' = closed ?c1"
        "u_size c' = u_size ?c1 + sum_list (map elements bs)"
    by blast
  have "Append_all c (b # bs) = Inr c'"
    using c'(1) by (simp add: Append_eq)
  moreover have "u_size c' = u_size c + sum_list (map elements (b # bs))"
    using c'(3) by (simp add: u_size_snoc add.assoc)
  moreover have "closed c' = closed c"
    using c'(2) by simp
  ultimately show ?case by blast
qed

lemma unat_sum_list:
  "sum_list (map (\<lambda>b. unat (elements b)) bs) < 2 ^ 64 \<Longrightarrow>
   unat (sum_list (map elements bs)) = sum_list (map (\<lambda>b. unat (elements b)) bs)"
proof (induction bs)
  case Nil
  show ?case by simp
next
  case (Cons b bs)
  then have ih: "unat (sum_list (map elements bs)) = sum_list (map (\<lambda>b. unat (elements b)) bs)"
    by simp
  have "unat (elements b + sum_list (map elements bs)) =
        unat (elements b) + unat (sum_list (map elements bs))"
    using Cons.prems ih by (simp add: unat_add_lem [THEN iffD1])
  then show ?case using ih by simp
qed

section \<open>Claims about BufferChain\<close>

text \<open>
  C1: on every chain without elements, and on the newly constructed chain in particular,
  any sequence of \<^verbatim>\<open>Append(BinaryBufferBuilder&)\<close> calls succeeds, and afterwards
  \<^verbatim>\<open>size()\<close> is the sum of the builders' element counts. The sum is the one of
  \<^verbatim>\<open>size_t\<close>; it is the sum of the natural numbers whenever that stays below \<open>2 ^ 64\<close>.
  Each single \<^verbatim>\<open>Append\<close> adds one element at the back whose \<^verbatim>\<open>element_count\<close> is the
  previous \<^verbatim>\<open>size()\<close> plus the builder's element count.
\<close>

theorem C1_append_builders_size:
  "Append d bd =
     Inr (d\<lparr>elems := elems d @
            [\<lparr>buffer = BinaryBuffer_of bd, element_count = size_chain d + elements bd,
              offset_of_first = 0\<rparr>]\<rparr>, Detach bd) \<and>
   (\<exists>c0. BufferChain_new clang = Inr c0 \<and> elems c0 = []) \<and>
   (elems c = [] \<longrightarrow>
      (\<exists>c'. Append_all c bs = Inr c' \<and>
         size_chain c' = sum_list (map elements bs) \<and>
         (sum_list (map (\<lambda>b. unat (elements b)) bs) < 2 ^ 64 \<longrightarrow>
            unat (size_chain c') = sum_list (map (\<lambda>b. unat (elements b)) bs))))"
proof -
  have "\<exists>c'. Append_all c bs = Inr c' \<and>
         size_chain c' = sum_list (map elements bs) \<and>
         (sum_list (map (\<lambda>b. unat (elements b)) bs) < 2 ^ 64 \<longrightarrow>
            unat (size_chain c') = sum_list (map (\<lambda>b. unat (elements b)) bs))"
    if empty: "elems c = []"
  proof -
    obtain c' where c': "Append_all c bs = Inr c'"
        "u_size c' = u_size c + sum_list (map elements bs)"
      using Append_all_general [of c bs] by blast
    have sz: "size_chain c' = sum_list (map elements bs)"
      using c'(2) empty by (simp add: size_chain_def u_size_def)
    have "sum_list (map (\<lambda>b. unat (elements b)) bs) < 2 ^ 64 \<longrightarrow>
           unat (size_chain c') = sum_list (map (\<lambda>b. unat (elements b)) bs)"
      using sz unat_sum_list [of bs] by simp
    with c'(1) sz show ?thesis by blast
  qed
  then show ?thesis
    by (simp add: BufferChain_new_eq Append_eq size_chain_def)
qed

theorem C1_append_builders_size_witness:
  "\<exists>c'. Append_all \<lparr>elems = [], closed = False\<rparr>
           [\<lparr>bytes = [1, 2], elements = 2\<rparr>, \<lparr>bytes = [3, 4, 5], elements = 3\<rparr>] = Inr c' \<and>
      size_chain c' = 5 \<and> unat (size_chain c') = 5"
  using C1_append_builders_size
    [where clang = True and d = "\<lparr>elems = [], closed = False\<rparr>"
       and bd = "\<lparr>bytes = [], elements = 0\<rparr>"
       and c = "\<lparr>elems = [], closed = False\<rparr>"
       and bs = "[\<lparr>bytes = [1, 2], elements = 2\<rparr>, \<lparr>bytes = [3, 4, 5], elements = 3\<rparr>]"]
  by simp

text \<open>
  C5: \<^verbatim>\<open>Close\<close> is idempotent. After one \<^verbatim>\<open>Close\<close> the chain is closed; a second
  \<^verbatim>\<open>Close\<close>, and any number of further ones, changes neither the flag nor the element
  sequence; \<^verbatim>\<open>Close\<close> never touches the elements.
\<close>

theorem C5_close_idempotent:
  "IsClosed (Close c) \<and> Close (Close c) = Close c \<and>
   (Close ^^ Suc n) c = Close c \<and> elems (Close c) = elems c"
proof -
  have "(Close ^^ Suc n) c = Close c"
    by (induction n) (simp_all add: Close_def)
  then show ?thesis by (simp add: Close_def IsClosed_def)
qed

text \<open>
  C6: for every chain, \<^verbatim>\<open>size()\<close> is the \<^verbatim>\<open>element_count\<close> of the last element of the
  chain, and it is 0 when the chain holds no elements.
\<close>

theorem C6_size_is_last_element_count:
  "size_chain (c\<lparr>elems := []\<rparr>) = 0 \<and>
   size_chain (c\<lparr>elems := es @ [e]\<rparr>) = element_count e \<and>
   size_chain c = (if elems c = [] then 0 else element_count (last (elems c)))"
  by (simp add: size_chain_def u_size_def)

text \<open>
  C9: a newly constructed chain (with or without the libc++ workaround) is empty and
  open: \<^verbatim>\<open>size()\<close> is 0, \<^verbatim>\<open>Begin()\<close> equals \<^verbatim>\<open>End()\<close>, and \<^verbatim>\<open>IsClosed()\<close> is false.
\<close>

theorem C9_new_chain_empty_open:
  "\<exists>c. BufferChain_new clang = Inr c \<and> elems c = [] \<and> size_chain c = 0 \<and>
       Begin c = End c \<and> \<not> IsClosed c"
  by (simp add: BufferChain_new_eq size_chain_def u_size_def Begin_def End_def IsClosed_def)

lemma sorted_snoc_last:
  fixes x :: "'a::linorder"
  assumes "sorted xs" and "xs \<noteq> [] \<Longrightarrow> last xs \<le> x"
  shows "sorted (xs @ [x])"
proof (cases "xs = []")
  case True
  then show ?thesis by simp
next
  case False
  have "y \<le> x" if "y \<in> set xs" for y
  proof -
    from that obtain i where i: "i < length xs" "xs ! i = y"
      by (auto simp: in_set_conv_nth)
    have "xs ! i \<le> xs ! (length xs - 1)"
      using assms(1) i(1) by (intro sorted_nth_mono) auto
    also have "xs ! (length xs - 1) = last xs"
      using False by (simp add: last_conv_nth)
    finally show ?thesis using assms(2) [OF False] i(2) by simp
  qed
  with assms(1) show ?thesis by (simp add: sorted_append)
qed

lemma last_count_is_u_size:
  "elems c \<noteq> [] \<Longrightarrow> last (map element_count (elems c)) = u_size c"
  by (simp add: u_size_def last_map)

lemma run_op_keeps_order:
  assumes "sorted (map element_count (elems c))" and "keeps_order c x"
  shows "\<exists>c'. run_op c x = Inr c' \<and> sorted (map element_count (elems c'))"
proof (cases x)
  case (AppendBuilder b)
  have le: "u_size c \<le> u_size c + elements b"
    using assms(2) AppendBuilder by (simp add: no_plus_overflow_unat_size word_size)
  have "sorted (map element_count (elems c) @ [u_size c + elements b])"
    using assms(1) le by (intro sorted_snoc_last) (simp_all add: last_count_is_u_size)
  then show ?thesis using AppendBuilder by (simp add: Append_eq)
next
  case (AppendElement buf n off)
  then have off: "off = 0" and le: "u_size c \<le> n"
    using assms(2) by simp_all
  have "sorted (map element_count (elems c) @ [n])"
    using assms(1) le by (intro sorted_snoc_last) (simp_all add: last_count_is_u_size)
  then show ?thesis
    using AppendElement off
    by (simp add: mk_BufferChainElement_zero Append_element_def push_back_snoc)
qed

lemma run_ops_keep_order:
  "sorted (map element_count (elems c)) \<Longrightarrow> keep_order_all c ops \<Longrightarrow>
   \<exists>c'. run_ops c ops = Inr c' \<and> sorted (map element_count (elems c'))"
proof (induction ops arbitrary: c)
  case Nil
  then show ?case by simp
next
  case (Cons x xs)
  from Cons.prems have k: "keeps_order c x" by simp
  from run_op_keeps_order [OF Cons.prems(1) k] obtain c1 where
    c1: "run_op c x = Inr c1" "sorted (map element_count (elems c1))" by blast
  from Cons.prems(2) c1(1) have "keep_order_all c1 xs" by simp
  from Cons.IH [OF c1(2) this] show ?case using c1(1) by simp
qed

text \<open>
  C4, as amended. The claim as stated fails: \<^verbatim>\<open>Append(BufferChainElement&&)\<close> stores the
  element it is given without looking at its count (see the counterexample below), and
  the sum in \<^verbatim>\<open>Append(BinaryBufferBuilder&)\<close> can wrap around. What holds: in a chain
  built from the empty chain by the two \<^verbatim>\<open>Append\<close> operations, the \<^verbatim>\<open>element_count\<close>
  values are non-decreasing from front to back, provided every appended element carries
  a count that is not below \<^verbatim>\<open>size()\<close> at the time of the call and no builder append
  overflows \<^verbatim>\<open>size_t\<close>; under these conditions every operation succeeds.
\<close>

theorem C4_counts_non_decreasing:
  "BufferChain_new clang = Inr c0 \<Longrightarrow> keep_order_all c0 ops \<Longrightarrow>
   \<exists>c. run_ops c0 ops = Inr c \<and> sorted (map element_count (elems c))"
  using run_ops_keep_order [of c0 ops] by (auto simp: BufferChain_new_eq)

text \<open>
  Appending an element with count 5 and then one with count 3 to the empty chain gives
  the counts 5, 3.
\<close>

theorem C4_counts_non_decreasing_counterexample:
  "BufferChain_new False = Inr \<lparr>elems = [], closed = False\<rparr> \<and>
   run_ops \<lparr>elems = [], closed = False\<rparr>
       [AppendElement \<lparr>data = []\<rparr> 5 0, AppendElement \<lparr>data = []\<rparr> 3 0] =
     Inr \<lparr>elems = [\<lparr>buffer = \<lparr>data = []\<rparr>, element_count = 5, offset_of_first = 0\<rparr>,
                 \<lparr>buffer = \<lparr>data = []\<rparr>, element_count = 3, offset_of_first = 0\<rparr>],
          closed = False\<rparr> \<and>
   \<not> sorted [5 :: size_t, 3]"
  by (simp add: BufferChain_new_eq mk_BufferChainElement_zero Append_element_def push_back_snoc)

theorem C4_counts_non_decreasing_witness:
  "\<exists>c. run_ops \<lparr>elems = [], closed = False\<rparr>
       [AppendBuilder \<lparr>bytes = [7], elements = 2\<rparr>, AppendElement \<lparr>data = []\<rparr> 5 0,
        AppendBuilder \<lparr>bytes = [8, 9], elements = 1\<rparr>] = Inr c \<and>
     map element_count (elems c) = [2, 5, 6] \<and> sorted (map element_count (elems c))"
  using C4_counts_non_decreasing [of True "\<lparr>elems = [], closed = False\<rparr>"
       "[AppendBuilder \<lparr>bytes = [7], elements = 2\<rparr>, AppendElement \<lparr>data = []\<rparr> 5 0,
        AppendBuilder \<lparr>bytes = [8, 9], elements = 1\<rparr>]"]
  by (simp add: BufferChain_new_eq Append_eq mk_BufferChainElement_zero Append_element_def
      push_back_snoc u_size_def)

text \<open>
  C3 fails as stated: \<^verbatim>\<open>Append\<close> does not read \<^verbatim>\<open>closed_\<close>. On the empty chain,
  \<^verbatim>\<open>Close\<close> followed by an \<^verbatim>\<open>Append\<close> of a builder with one element leaves a chain
  of one element.
\<close>

theorem C3_append_after_close_counterexample:
  "Append (Close \<lparr>elems = [], closed = False\<rparr>) \<lparr>bytes = [1], elements = 1\<rparr> =
     Inr (\<lparr>elems = [\<lparr>buffer = \<lparr>data = [1]\<rparr>, element_count = 1, offset_of_first = 0\<rparr>],
           closed = True\<rparr>, \<lparr>bytes = [], elements = 0\<rparr>) \<and>
   elems (Close \<lparr>elems = [], closed = False\<rparr>) = [] \<and>
   [\<lparr>buffer = \<lparr>data = [1]\<rparr>, element_count = 1 :: size_t, offset_of_first = 0 :: size_t\<rparr>] \<noteq> []"
  by (simp add: Append_eq Close_def u_size_def BinaryBuffer_of_def Detach_def)

text \<open>
  C3, as amended: \<^verbatim>\<open>Close\<close> sets \<^verbatim>\<open>closed_\<close> and leaves the element sequence as it
  is; the flag does not guard the appends. Called after \<^verbatim>\<open>Close\<close>, both \<^verbatim>\<open>Append\<close>
  overloads add their element at the back exactly as on an open chain, and the chain
  stays closed. That nothing is appended after \<^verbatim>\<open>Close\<close> is left to the callers.
\<close>

theorem C3_append_after_close:
  "IsClosed (Close c) \<and> elems (Close c) = elems c \<and>
   Append (Close c) b =
     Inr (\<lparr>elems = elems c @
             [\<lparr>buffer = BinaryBuffer_of b, element_count = size_chain c + elements b,
               offset_of_first = 0\<rparr>], closed = True\<rparr>, Detach b) \<and>
   Append_element (Close c) e = \<lparr>elems = elems c @ [e], closed = True\<rparr>"
  by (simp add: Append_eq Close_def IsClosed_def size_chain_def u_size_def
      Append_element_def push_back_snoc)

section \<open>Claims about OrderedBufferChain and the reserved offset\<close>

lemma transcribed_append:
  "transcribed n (xs @ ys) =
     transcribed n xs @ transcribed (n + sum_list (map element_count xs)) ys"
  by (induction xs arbitrary: n) (simp_all add: add.assoc)

lemma MoveTo_vector_eq:
  "MoveTo_vector v n t =
     Inr (n + sum_list (map element_count v), t\<lparr>elems := elems t @ transcribed n v\<rparr>)"
  by (induction v arbitrary: n t)
     (simp_all add: mk_BufferChainElement_zero Append_element_def push_back_snoc add.assoc)

lemma MoveTo_map_eq:
  "MoveTo_map m n t =
     Inr (n + sum_list (map element_count (concat (map snd m))),
          t\<lparr>elems := elems t @ transcribed n (concat (map snd m))\<rparr>)"
  by (induction m arbitrary: n t)
     (auto simp: MoveTo_vector_eq transcribed_append add.assoc)

lemma MoveTo_eq:
  "MoveTo obc t = Inr (t\<lparr>elems := elems t @ transcribed 0 (staged obc)\<rparr>)"
  by (simp add: MoveTo_def MoveTo_map_eq staged_def)

lemma offsets_zero_transcribed: "offsets_zero (transcribed n es)"
  by (induction es arbitrary: n) (simp_all add: offsets_zero_def)

lemma offsets_zero_append:
  "offsets_zero (xs @ ys) \<longleftrightarrow> offsets_zero xs \<and> offsets_zero ys"
  by (simp add: offsets_zero_def)

lemma map_find_offsets_zero:
  "map_find m k = Some v \<Longrightarrow> offsets_zero (concat (map snd m)) \<Longrightarrow> offsets_zero v"
  by (induction m) (auto simp: offsets_zero_def split: if_splits)

lemma map_assign_offsets_zero:
  "offsets_zero v \<Longrightarrow> offsets_zero (concat (map snd m)) \<Longrightarrow>
   offsets_zero (concat (map snd (map_assign m k v)))"
  by (induction m) (auto simp: offsets_zero_def)

lemma OrderedBufferChain_Append_ok:
  "\<exists>obc'. OrderedBufferChain_Append obc rank b = Inr (obc', Detach b) \<and>
      (offsets_zero (staged obc) \<longrightarrow> offsets_zero (staged obc'))"
proof -
  let ?el = "\<lparr>buffer = BinaryBuffer_of b, element_count = elements b, offset_of_first = 0\<rparr>"
  let ?m = "if map_find (buffers obc) rank = None
            then map_assign (buffers obc) rank [] else buffers obc"
  have el: "offsets_zero [?el]" by (simp add: offsets_zero_def)
  have m: "offsets_zero (concat (map snd ?m))" if "offsets_zero (staged obc)"
    using that map_assign_offsets_zero [of "[]" "buffers obc" rank]
    by (simp add: staged_def offsets_zero_def)
  show ?thesis
  proof (cases "map_find ?m rank")
    case None
    let ?r = "obc\<lparr>buffers := map_assign ?m rank [?el]\<rparr>"
    have "OrderedBufferChain_Append obc rank b = Inr (?r, Detach b)"
      using None
      by (simp add: OrderedBufferChain_Append_def mk_BufferChainElement_zero push_back_snoc Let_def)
    moreover have "offsets_zero (staged ?r)" if "offsets_zero (staged obc)"
      using map_assign_offsets_zero [OF el m [OF that], of rank] by (simp add: staged_def)
    ultimately show ?thesis by blast
  next
    case (Some v)
    let ?r = "obc\<lparr>buffers := map_assign ?m rank (v @ [?el])\<rparr>"
    have "OrderedBufferChain_Append obc rank b = Inr (?r, Detach b)"
      using Some
      by (simp add: OrderedBufferChain_Append_def mk_BufferChainElement_zero push_back_snoc Let_def)
    moreover have "offsets_zero (staged ?r)" if z: "offsets_zero (staged obc)"
    proof -
      have "offsets_zero v"
        using map_find_offsets_zero [OF Some m [OF z]] .
      then have "offsets_zero (v @ [?el])"
        using el by (simp add: offsets_zero_append)
      from map_assign_offsets_zero [OF this m [OF z], of rank] show ?thesis
        by (simp add: staged_def)
    qed
    ultimately show ?thesis by blast
  qed
qed

lemma OrderedBufferChain_Append_all_ok:
  "offsets_zero (staged obc) \<Longrightarrow>
   \<exists>obc'. OrderedBufferChain_Append_all obc rbs = Inr obc' \<and> offsets_zero (staged obc')"
proof (induction rbs arbitrary: obc)
  case Nil
  then show ?case by simp
next
  case (Cons rb rbs)
  obtain rank b where rb: "rb = (rank, b)" by (cases rb)
  from OrderedBufferChain_Append_ok [of obc rank b] Cons.prems obtain obc1 where
    o1: "OrderedBufferChain_Append obc rank b = Inr (obc1, Detach b)" "offsets_zero (staged obc1)"
    by blast
  from Cons.IH [OF o1(2)] show ?case using o1(1) rb by simp
qed

lemma run_op_offsets_zero:
  "run_op c x = Inr c' \<Longrightarrow> offsets_zero (elems c) \<Longrightarrow> offsets_zero (elems c')"
  by (cases x)
     (auto simp: Append_eq mk_BufferChainElement_def Append_element_def push_back_snoc
        offsets_zero_def split: if_splits)

lemma run_ops_offsets_zero:
  "run_ops c xs = Inr c' \<Longrightarrow> offsets_zero (elems c) \<Longrightarrow> offsets_zero (elems c')"
proof (induction xs arbitrary: c)
  case Nil
  then show ?case by simp
next
  case (Cons x xs)
  from Cons.prems(1) obtain c1 where c1: "run_op c x = Inr c1" "run_ops c1 xs = Inr c'"
    by (auto split: sum.splits)
  from Cons.IH [OF c1(2) run_op_offsets_zero [OF c1(1) Cons.prems(2)]] show ?case .
qed

text \<open>
  C7: every element of a chain has \<^verbatim>\<open>offset_of_first = 0\<close>. Constructing a
  \<^verbatim>\<open>BufferChainElement\<close> with a non-zero offset fails the assertion (\<open>Invariant\<close>), and
  with offset 0 it succeeds. \<^verbatim>\<open>BufferChain::Append\<close>, \<^verbatim>\<open>OrderedBufferChain::Append\<close>
  and \<^verbatim>\<open>MoveTo\<close> construct their elements with offset 0: they never fail, and they
  keep the offsets of a chain (of a staging area) at 0. So does every run of the two
  \<^verbatim>\<open>Append\<close> overloads from a new chain, and every run of staged appends from a new
  staging area. Assertions are taken as enabled.
\<close>

theorem C7_offset_of_first_zero:
  "(off \<noteq> 0 \<longrightarrow> mk_BufferChainElement buf n off = Inl Invariant) \<and>
   mk_BufferChainElement buf n 0 = Inr \<lparr>buffer = buf, element_count = n, offset_of_first = 0\<rparr> \<and>
   (\<exists>c'. Append c b = Inr (c', Detach b) \<and>
      (offsets_zero (elems c) \<longrightarrow> offsets_zero (elems c'))) \<and>
   (\<exists>obc'. OrderedBufferChain_Append obc rank b = Inr (obc', Detach b) \<and>
      (offsets_zero (staged obc) \<longrightarrow> offsets_zero (staged obc'))) \<and>
   (\<exists>c'. MoveTo obc c = Inr c' \<and>
      (offsets_zero (elems c) \<longrightarrow> offsets_zero (elems c'))) \<and>
   (\<exists>c0. BufferChain_new clang = Inr c0 \<and> offsets_zero (elems c0) \<and>
      (\<forall>cr. run_ops c0 ops = Inr cr \<longrightarrow> offsets_zero (elems cr))) \<and>
   (\<exists>obr. OrderedBufferChain_Append_all OrderedBufferChain_new rbs = Inr obr \<and>
      offsets_zero (staged obr))"
proof -
  have ctor: "off \<noteq> 0 \<longrightarrow> mk_BufferChainElement buf n off = Inl Invariant"
    by (simp add: mk_BufferChainElement_def)
  have app: "\<exists>c'. Append c b = Inr (c', Detach b) \<and>
      (offsets_zero (elems c) \<longrightarrow> offsets_zero (elems c'))"
    by (simp add: Append_eq offsets_zero_def)
  have mv: "\<exists>c'. MoveTo obc c = Inr c' \<and>
      (offsets_zero (elems c) \<longrightarrow> offsets_zero (elems c'))"
    by (simp add: MoveTo_eq offsets_zero_append offsets_zero_transcribed)
  have new: "\<exists>c0. BufferChain_new clang = Inr c0 \<and> offsets_zero (elems c0) \<and>
      (\<forall>cr. run_ops c0 ops = Inr cr \<longrightarrow> offsets_zero (elems cr))"
    using run_ops_offsets_zero [of "\<lparr>elems = [], closed = False\<rparr>" ops]
    by (simp add: BufferChain_new_eq offsets_zero_def)
  have st: "\<exists>obr. OrderedBufferChain_Append_all OrderedBufferChain_new rbs = Inr obr \<and>
      offsets_zero (staged obr)"
    by (rule OrderedBufferChain_Append_all_ok)
       (simp add: OrderedBufferChain_new_def staged_def offsets_zero_def)
  from ctor app mv new st OrderedBufferChain_Append_ok [of obc rank b]
  show ?thesis by (simp add: mk_BufferChainElement_zero)
qed

theorem C7_offset_of_first_zero_witness:
  "mk_BufferChainElement \<lparr>data = []\<rparr> 3 1 = Inl Invariant \<and>
   (\<exists>c'. Append \<lparr>elems = [], closed = False\<rparr> \<lparr>bytes = [1], elements = 1\<rparr> =
            Inr (c', Detach \<lparr>bytes = [1], elements = 1\<rparr>) \<and> offsets_zero (elems c')) \<and>
   (\<exists>obc'. OrderedBufferChain_Append \<lparr>buffers = []\<rparr> 0 \<lparr>bytes = [1], elements = 1\<rparr> =
            Inr (obc', Detach \<lparr>bytes = [1], elements = 1\<rparr>) \<and> offsets_zero (staged obc')) \<and>
   (\<exists>c'. MoveTo \<lparr>buffers = []\<rparr> \<lparr>elems = [], closed = False\<rparr> = Inr c' \<and>
            offsets_zero (elems c')) \<and>
   offsets_zero
     [\<lparr>buffer = \<lparr>data = [1]\<rparr>, element_count = 1, offset_of_first = 0\<rparr>,
      \<lparr>buffer = \<lparr>data = []\<rparr>, element_count = 3, offset_of_first = 0\<rparr>]"
  using C7_offset_of_first_zero
    [where off = 1 and buf = "\<lparr>data = []\<rparr>" and n = 3
       and c = "\<lparr>elems = [], closed = False\<rparr>" and b = "\<lparr>bytes = [1], elements = 1\<rparr>"
       and obc = "\<lparr>buffers = []\<rparr>" and rank = 0 and clang = True
       and ops = "[AppendBuilder \<lparr>bytes = [1], elements = 1\<rparr>, AppendElement \<lparr>data = []\<rparr> 3 0]"
       and rbs = "[(1, \<lparr>bytes = [1], elements = 1\<rparr>), (0, \<lparr>bytes = [1], elements = 1\<rparr>)]"]
  by (simp add: offsets_zero_def staged_def BufferChain_new_eq Append_eq
      mk_BufferChainElement_zero Append_element_def push_back_snoc u_size_def BinaryBuffer_of_def)

lemma map_find_map_assign:
  "map_find (map_assign m k v) k' = (if k' = k then Some v else map_find m k')"
  by (induction m) auto

lemma keys_map_assign:
  "set (map fst (map_assign m k v)) = insert k (set (map fst m))"
  by (induction m k v rule: map_assign.induct) (simp_all add: insert_commute)

lemma sorted_map_assign:
  "sorted_wrt (<) (map fst m) \<Longrightarrow> sorted_wrt (<) (map fst (map_assign m k v))"
proof (induction m)
  case Nil
  show ?case by simp
next
  case (Cons p m)
  obtain k' v' where p: "p = (k', v')" by (cases p)
  show ?case
  proof (cases "k < k'")
    case True
    with Cons.prems p show ?thesis by auto
  next
    case False
    show ?thesis
    proof (cases "k = k'")
      case True
      with Cons.prems p show ?thesis by auto
    next
      case ne: False
      with False have lt: "k' < k" by simp
      have "\<forall>x \<in> set (map fst (map_assign m k v)). k' < x"
        using Cons.prems p lt by (simp only: keys_map_assign) auto
      moreover have "sorted_wrt (<) (map fst (map_assign m k v))"
        using Cons.IH Cons.prems by simp
      ultimately show ?thesis using p False ne by simp
    qed
  qed
qed

lemma OrderedBufferChain_Append_step:
  "\<exists>obc'. OrderedBufferChain_Append obc rank b = Inr (obc', Detach b) \<and>
     (\<forall>k. map_find (buffers obc') k =
        (if k = rank
         then Some ((case map_find (buffers obc) rank of None \<Rightarrow> [] | Some v \<Rightarrow> v) @
                    [staged_element b])
         else map_find (buffers obc) k)) \<and>
     (sorted_wrt (<) (map fst (buffers obc)) \<longrightarrow> sorted_wrt (<) (map fst (buffers obc')))"
  by (cases "map_find (buffers obc) rank")
     (simp_all add: OrderedBufferChain_Append_def mk_BufferChainElement_zero push_back_def
        Let_def map_find_map_assign sorted_map_assign staged_element_def)

lemma OrderedBufferChain_Append_all_snoc:
  "OrderedBufferChain_Append_all obc (rbs @ [(rank, b)]) =
     (case OrderedBufferChain_Append_all obc rbs of
        Inl e \<Rightarrow> Inl e
      | Inr obc' \<Rightarrow>
          (case OrderedBufferChain_Append obc' rank b of
             Inl e \<Rightarrow> Inl e
           | Inr (obc'', b') \<Rightarrow> Inr obc''))"
  by (induction obc rbs rule: OrderedBufferChain_Append_all.induct)
     (auto split: sum.splits)

lemma staging_by_rank:
  "\<exists>obc. OrderedBufferChain_Append_all OrderedBufferChain_new rbs = Inr obc \<and>
     sorted_wrt (<) (map fst (buffers obc)) \<and>
     (\<forall>k. map_find (buffers obc) k =
        (if k \<in> fst ` set rbs
         then Some (map (\<lambda>rb. staged_element (snd rb)) (filter (\<lambda>rb. fst rb = k) rbs))
         else None))"
proof (induction rbs rule: rev_induct)
  case Nil
  show ?case by (simp add: OrderedBufferChain_new_def)
next
  case (snoc rb rbs)
  obtain rank b where rb: "rb = (rank, b)" by (cases rb)
  from snoc.IH obtain obc where
    obc: "OrderedBufferChain_Append_all OrderedBufferChain_new rbs = Inr obc"
         "sorted_wrt (<) (map fst (buffers obc))"
         "\<And>k. map_find (buffers obc) k =
            (if k \<in> fst ` set rbs
             then Some (map (\<lambda>rb. staged_element (snd rb)) (filter (\<lambda>rb. fst rb = k) rbs))
             else None)"
    by blast
  from OrderedBufferChain_Append_step [of obc rank b] obtain obc' where
    obc': "OrderedBufferChain_Append obc rank b = Inr (obc', Detach b)"
          "\<And>k. map_find (buffers obc') k =
            (if k = rank
             then Some ((case map_find (buffers obc) rank of None \<Rightarrow> [] | Some v \<Rightarrow> v) @
                        [staged_element b])
             else map_find (buffers obc) k)"
          "sorted_wrt (<) (map fst (buffers obc'))"
    using obc(2) by blast
  have run: "OrderedBufferChain_Append_all OrderedBufferChain_new (rbs @ [rb]) = Inr obc'"
    using obc(1) obc'(1) rb by (simp add: OrderedBufferChain_Append_all_snoc)
  have look: "map_find (buffers obc') k =
      (if k \<in> fst ` set (rbs @ [rb])
       then Some (map (\<lambda>rb. staged_element (snd rb)) (filter (\<lambda>rb. fst rb = k) (rbs @ [rb])))
       else None)" for k
  proof (cases "k = rank")
    case True
    then show ?thesis using obc'(2) [of k] obc(3) [of rank] rb
      by (auto simp: filter_empty_conv)
  next
    case False
    then show ?thesis using obc'(2) [of k] obc(3) [of k] rb by simp
  qed
  from run obc'(3) look show ?case by blast
qed

text \<open>
  C2. What holds for every run of staged appends and every target: the staging map has
  its ranks in strictly ascending order, under each rank the staged elements of that rank
  in the order of their appends, and \<^verbatim>\<open>MoveTo\<close> never fails and appends the staged
  elements in map order, each with the running sum of the staged counts. That sum
  \<^emph>\<open>starts from 0\<close> whatever the target holds, so the counts are the cumulative counts of
  the target chain only when its \<^verbatim>\<open>size()\<close> was 0. At a target that already holds
  elements they are not: staging 2 elements for rank 1 and then 3 elements for rank 0
  gives the map rank 0, rank 1; moved into a chain that holds one block of 4 elements, the
  transcribed elements get the counts 3 and 5, where the cumulative counts of the target
  chain after them are 7 and 9.
\<close>

theorem C2_MoveTo_counts_from_zero:
  "(\<exists>obc. OrderedBufferChain_Append_all OrderedBufferChain_new rbs = Inr obc \<and>
      sorted_wrt (<) (map fst (buffers obc)) \<and>
      (\<forall>k. map_find (buffers obc) k =
         (if k \<in> fst ` set rbs
          then Some (map (\<lambda>rb. staged_element (snd rb)) (filter (\<lambda>rb. fst rb = k) rbs))
          else None)) \<and>
      MoveTo obc t = Inr (t\<lparr>elems := elems t @ transcribed 0 (staged obc)\<rparr>)) \<and>
   OrderedBufferChain_Append_all OrderedBufferChain_new
       [(1, \<lparr>bytes = [1, 2], elements = 2\<rparr>), (0, \<lparr>bytes = [3, 4, 5], elements = 3\<rparr>)] =
     Inr \<lparr>buffers =
           [(0, [\<lparr>buffer = \<lparr>data = [3, 4, 5]\<rparr>, element_count = 3, offset_of_first = 0\<rparr>]),
            (1, [\<lparr>buffer = \<lparr>data = [1, 2]\<rparr>, element_count = 2, offset_of_first = 0\<rparr>])]\<rparr> \<and>
   Append \<lparr>elems = [], closed = False\<rparr> \<lparr>bytes = [6, 7, 8, 9], elements = 4\<rparr> =
     Inr (\<lparr>elems = [\<lparr>buffer = \<lparr>data = [6, 7, 8, 9]\<rparr>, element_count = 4,
                       offset_of_first = 0\<rparr>], closed = False\<rparr>,
          \<lparr>bytes = [], elements = 0\<rparr>) \<and>
   MoveTo
       \<lparr>buffers =
           [(0, [\<lparr>buffer = \<lparr>data = [3, 4, 5]\<rparr>, element_count = 3, offset_of_first = 0\<rparr>]),
            (1, [\<lparr>buffer = \<lparr>data = [1, 2]\<rparr>, element_count = 2, offset_of_first = 0\<rparr>])]\<rparr>
       \<lparr>elems = [\<lparr>buffer = \<lparr>data = [6, 7, 8, 9]\<rparr>, element_count = 4,
                  offset_of_first = 0\<rparr>], closed = False\<rparr> =
     Inr \<lparr>elems = [\<lparr>buffer = \<lparr>data = [6, 7, 8, 9]\<rparr>, element_count = 4, offset_of_first = 0\<rparr>,
                  \<lparr>buffer = \<lparr>data = [3, 4, 5]\<rparr>, element_count = 3, offset_of_first = 0\<rparr>,
                  \<lparr>buffer = \<lparr>data = [1, 2]\<rparr>, element_count = 5, offset_of_first = 0\<rparr>],
          closed = False\<rparr>"
proof -
  have general: "\<exists>obc. OrderedBufferChain_Append_all OrderedBufferChain_new rbs = Inr obc \<and>
      sorted_wrt (<) (map fst (buffers obc)) \<and>
      (\<forall>k. map_find (buffers obc) k =
         (if k \<in> fst ` set rbs
          then Some (map (\<lambda>rb. staged_element (snd rb)) (filter (\<lambda>rb. fst rb = k) rbs))
          else None)) \<and>
      MoveTo obc t = Inr (t\<lparr>elems := elems t @ transcribed 0 (staged obc)\<rparr>)"
    using staging_by_rank [of rbs] by (simp add: MoveTo_eq)
  show ?thesis
    by (rule conjI [OF general])
       (simp add: MoveTo_eq staged_def OrderedBufferChain_new_def OrderedBufferChain_Append_def
          mk_BufferChainElement_zero push_back_snoc Append_eq u_size_def BinaryBuffer_of_def
          Detach_def)
qed

section \<open>Claims about UfsFileBase\<close>

text \<open>
  C10: \<^verbatim>\<open>UfsFileBase::close()\<close> is idempotent. On an open descriptor, when \<^verbatim>\<open>::close\<close>
  does not fail, the call closes the descriptor (the operating system's state is the one
  \<^verbatim>\<open>::close\<close> returned) and sets \<^verbatim>\<open>file_des\<close> to -1. After any successful call
  \<^verbatim>\<open>file_des\<close> is -1, and every later call, the destructor's included, returns without
  error and changes neither the object nor the operating system's state.
\<close>

theorem C10_close_idempotent:
  "(file_des f \<noteq> - 1 \<and> sys_close os (file_des f) = (rc, osa) \<and> 0 \<le> rc \<longrightarrow>
      UfsFileBase_close sys_close f os = (Inr (), f\<lparr>file_des := - 1\<rparr>, osa)) \<and>
   (UfsFileBase_close sys_close f os = (Inr (), fa, osa) \<longrightarrow>
      file_des fa = - 1 \<and>
      UfsFileBase_close sys_close fa osb = (Inr (), fa, osb) \<and>
      UfsFileBase_destroy sys_close fa osb = (Inr (), fa, osb))"
  by (auto simp: UfsFileBase_close_def UfsFileBase_destroy_def split: if_splits prod.splits)

theorem C10_close_idempotent_witness:
  "UfsFileBase_close fd_table_close
       \<lparr>file_des = 3, m_mode = 0, filename = ''a'', m_is_device = False\<rparr> [0, 1, 2, 3] =
     (Inr (), \<lparr>file_des = - 1, m_mode = 0, filename = ''a'', m_is_device = False\<rparr>, [0, 1, 2]) \<and>
   UfsFileBase_close fd_table_close
       \<lparr>file_des = - 1, m_mode = 0, filename = ''a'', m_is_device = False\<rparr> [0, 1, 2] =
     (Inr (), \<lparr>file_des = - 1, m_mode = 0, filename = ''a'', m_is_device = False\<rparr>, [0, 1, 2]) \<and>
   UfsFileBase_destroy fd_table_close
       \<lparr>file_des = - 1, m_mode = 0, filename = ''a'', m_is_device = False\<rparr> [0, 1, 2] =
     (Inr (), \<lparr>file_des = - 1, m_mode = 0, filename = ''a'', m_is_device = False\<rparr>, [0, 1, 2])"
  using C10_close_idempotent
    [where sys_close = fd_table_close
       and f = "\<lparr>file_des = 3, m_mode = 0, filename = ''a'', m_is_device = False\<rparr>"
       and os = "[0, 1, 2, 3]" and rc = 0 and osa = "[0, 1, 2]"
       and fa = "\<lparr>file_des = - 1, m_mode = 0, filename = ''a'', m_is_device = False\<rparr>"
       and osb = "[0, 1, 2]"]
  by (simp add: fd_table_close_def)

section \<open>The single-worker scatter scenario\<close>

lemma u32_roundtrip: "u32_of_le (u32_le w) = Some w"
  unfolding u32_le_def
  apply simp
  apply (rule bit_word_eqI)
  apply (auto simp: bit_simps)
  subgoal for n by (cases "n < 24") simp_all
  done

lemma char_roundtrip: "char_of (unat (of_char c :: byte)) = c"
proof -
  have "unat (of_char c :: byte) = unat (of_nat (of_char c) :: byte)"
    by (simp only: of_nat_of_char)
  also have "\<dots> = (of_char c :: nat) mod 256"
    by (simp add: unat_of_nat)
  finally show ?thesis by simp
qed

lemma length_u32_le: "length (u32_le w) = 4"
  by (simp add: u32_le_def)

lemma length_encode_string: "length (encode_string s) = 4 + length s"
  by (simp add: encode_string_def length_u32_le)

lemma encode_string_not_Nil: "encode_string s \<noteq> []"
  using length_encode_string [of s] by auto

lemma decode_encode_string:
  assumes "length s < 2 ^ 32"
  shows "decode_string (pre @ encode_string s @ post) (length pre) =
           Some (s, length pre + 4 + length s)"
proof -
  let ?w = "of_nat (length s) :: 32 word"
  have un: "unat ?w = length s"
    using assms by (simp add: unat_of_nat)
  have hd4: "take 4 (drop (length pre) (pre @ encode_string s @ post)) = u32_le ?w"
    by (simp add: encode_string_def length_u32_le)
  have body: "take (length s) (drop (length pre + 4) (pre @ encode_string s @ post)) =
                map of_char s"
    by (simp add: encode_string_def length_u32_le)
  have chars: "map (\<lambda>b. char_of (unat b)) (map of_char s :: byte list) = s"
    by (simp add: char_roundtrip comp_def)
  have len: "length pre + 4 + length s \<le> length (pre @ encode_string s @ post)"
    by (simp add: length_encode_string)
  show ?thesis
    unfolding decode_string_def
    by (simp only: hd4 u32_roundtrip option.case un body chars len if_True)
qed




lemma bind_err_Inr: "bind_err (Inr x) f = f x"
  by (simp add: bind_err_def)





text \<open>
  Cutting a block at record boundaries: skipping the records of \<open>xs\<close> and taking those of
  \<open>ys\<close> leaves exactly the encoding of \<open>ys\<close>.
\<close>

lemma skip_records_encoded:
  assumes "\<forall>x \<in> set xs. length x < 2 ^ 32"
  shows "skip_records (pre @ concat (map encode_string xs) @ post) (length pre) (length xs) =
           Some (length pre + length (concat (map encode_string xs)))"
  using assms
proof (induction xs arbitrary: pre)
  case Nil
  show ?case by simp
next
  case (Cons x xs)
  let ?rest = "concat (map encode_string xs) @ post"
  have d: "decode_string (pre @ encode_string x @ ?rest) (length pre) =
             Some (x, length pre + 4 + length x)"
    using Cons.prems by (intro decode_encode_string) simp
  have "skip_records ((pre @ encode_string x) @ concat (map encode_string xs) @ post)
          (length (pre @ encode_string x)) (length xs) =
        Some (length (pre @ encode_string x) + length (concat (map encode_string xs)))"
    using Cons.prems by (intro Cons.IH) simp
  then have ih: "skip_records (pre @ encode_string x @ ?rest) (length pre + 4 + length x)
          (length xs) =
        Some (length pre + 4 + length x + length (concat (map encode_string xs)))"
    by (simp add: length_encode_string add.assoc)
  have "skip_records (pre @ encode_string x @ ?rest) (length pre) (Suc (length xs)) =
        Some (length pre + 4 + length x + length (concat (map encode_string xs)))"
    by (simp only: skip_records.simps d option.case prod.case ih)
  then show ?case
    by (simp add: length_encode_string add.assoc)
qed

lemma cut_block_encoded:
  assumes "\<forall>x \<in> set (xs @ ys). length x < 2 ^ 32"
  shows "cut_block \<lparr>data = concat (map encode_string xs) @ concat (map encode_string ys) @ post\<rparr>
           (length xs) (length ys) =
         Inr \<lparr>data = concat (map encode_string ys)\<rparr>"
proof -
  let ?X = "concat (map encode_string xs)" and ?Y = "concat (map encode_string ys)"
  have a: "skip_records (?X @ ?Y @ post) 0 (length xs) = Some (length ?X)"
    using skip_records_encoded [of xs "[]" "?Y @ post"] assms by simp
  have b: "skip_records (?X @ ?Y @ post) (length ?X) (length ys) = Some (length ?X + length ?Y)"
    using skip_records_encoded [of ys ?X post] assms by simp
  show ?thesis
    unfolding cut_block_def
    by (simp only: BinaryBuffer.simps a b option.case) simp
qed

lemma cut_34:
  "cut_block \<lparr>data = encode_string ''3'' @ encode_string ''4'' @ encode_string ''5'' @
                     encode_string ''6''\<rparr> 0 2 =
     Inr \<lparr>data = encode_string ''3'' @ encode_string ''4''\<rparr>"
proof -
  have "\<forall>x \<in> set ([] @ [''3'', ''4'']). length x < 2 ^ 32" by simp
  from cut_block_encoded [OF this, of "encode_string ''5'' @ encode_string ''6''"]
  show ?thesis by (simp add: numeral_2_eq_2)
qed

lemma cut_56:
  "cut_block \<lparr>data = encode_string ''3'' @ encode_string ''4'' @ encode_string ''5'' @
                     encode_string ''6''\<rparr> 2 2 =
     Inr \<lparr>data = encode_string ''5'' @ encode_string ''6''\<rparr>"
proof -
  have "\<forall>x \<in> set ([''3'', ''4''] @ [''5'', ''6'']). length x < 2 ^ 32" by simp
  from cut_block_encoded [OF this, of "[]"]
  show ?thesis by (simp add: numeral_2_eq_2)
qed

section \<open>The three-worker partial exchange\<close>

text \<open>
  The same model on scenario 4 of the spec, where the block of worker 1 straddles the
  boundary between the ranges of workers 1 and 2: worker 0 reads "1", "2", worker 1
  reads "3", "4", worker 2 reads "5", "6", and each iterator is finished after its two
  elements.
\<close>

lemma decode_pair_first:
  "length x < 2 ^ 32 \<Longrightarrow>
   decode_string (encode_string x @ encode_string y) 0 = Some (x, 4 + length x)"
  using decode_encode_string [of x "[]" "encode_string y"] by simp

lemma decode_pair_second:
  "length y < 2 ^ 32 \<Longrightarrow>
   decode_string (encode_string x @ encode_string y) (4 + length x) =
     Some (y, 8 + length x + length y)"
  using decode_encode_string [of y "encode_string x" "[]"]
  by (simp add: length_encode_string add.assoc)

lemma read_two_pair:
  assumes "length x < 2 ^ 32" and "length y < 2 ^ 32"
  shows "read_two
     \<lparr>elems = [\<lparr>buffer = \<lparr>data = encode_string x @ encode_string y\<rparr>, element_count = 2,
                 offset_of_first = 0\<rparr>], closed = True\<rparr> = Inr (x, y, True)"
  by (simp add: read_two_def bind_err_def Next_def Iterator_new_def block_has_next_def
      HasNext_def IsFinished_def IsClosed_def length_encode_string
      decode_pair_first [OF assms(1)] decode_pair_second [OF assms(2)])

lemma emit_all_12:
  "emit_all clang [''1'', ''2''] =
     Inr \<lparr>elems = [\<lparr>buffer = \<lparr>data = encode_string ''1'' @ encode_string ''2''\<rparr>,
                    element_count = 2, offset_of_first = 0\<rparr>], closed = True\<rparr>"
  by (simp add: emit_all_def BufferChain_new_eq bind_err_def Emitter_emit_def Emitter_Flush_def
      Emitter_Close_def Emitter_new_def Let_def block_threshold_def length_encode_string
      encode_string_not_Nil Append_eq u_size_def BinaryBuffer_of_def Detach_def Close_def)

lemma emit_all_3456:
  "emit_all clang [''3'', ''4'', ''5'', ''6''] =
     Inr \<lparr>elems = [\<lparr>buffer = \<lparr>data = encode_string ''3'' @ encode_string ''4'' @
                                      encode_string ''5'' @ encode_string ''6''\<rparr>,
                    element_count = 4, offset_of_first = 0\<rparr>], closed = True\<rparr>"
  by (simp add: emit_all_def BufferChain_new_eq bind_err_def Emitter_emit_def Emitter_Flush_def
      Emitter_Close_def Emitter_new_def Let_def block_threshold_def length_encode_string
      encode_string_not_Nil Append_eq u_size_def BinaryBuffer_of_def Detach_def Close_def)

lemma emit_all_none: "emit_all clang [] = Inr \<lparr>elems = [], closed = True\<rparr>"
  by (simp add: emit_all_def BufferChain_new_eq bind_err_def Emitter_Flush_def
      Emitter_Close_def Emitter_new_def Close_def)

lemma scatter_worker0:
  "Scatter 0 0
     \<lparr>elems = [\<lparr>buffer = \<lparr>data = encode_string ''1'' @ encode_string ''2''\<rparr>,
                 element_count = 2, offset_of_first = 0\<rparr>], closed = True\<rparr> [2, 2, 2]
     \<lparr>target_chain = \<lparr>elems = [], closed = False\<rparr>, staging = OrderedBufferChain_new,
        closed_senders = [False, False, False], ordered = True\<rparr> =
   Inr (\<lparr>target_chain =
          \<lparr>elems = [\<lparr>buffer = \<lparr>data = encode_string ''1'' @ encode_string ''2''\<rparr>,
                      element_count = 2, offset_of_first = 0\<rparr>], closed = False\<rparr>,
         staging = OrderedBufferChain_new, closed_senders = [True, False, False],
         ordered = True\<rparr>,
        [(1, ChannelClose 0 0), (2, ChannelClose 0 0)])"
  by (simp add: Scatter_def channel_close_def mk_BufferChainElement_zero Append_element_def
      push_back_snoc u_size_def Let_def)

lemma scatter_worker1:
  "Scatter 0 (Suc 0)
     \<lparr>elems = [\<lparr>buffer = \<lparr>data = encode_string ''3'' @ encode_string ''4'' @
                                   encode_string ''5'' @ encode_string ''6''\<rparr>,
                 element_count = 4, offset_of_first = 0\<rparr>], closed = True\<rparr> [0, 2, 4]
     \<lparr>target_chain = \<lparr>elems = [], closed = False\<rparr>, staging = OrderedBufferChain_new,
        closed_senders = [False, False, False], ordered = True\<rparr> =
   Inr (\<lparr>target_chain =
          \<lparr>elems = [\<lparr>buffer = \<lparr>data = encode_string ''3'' @ encode_string ''4''\<rparr>,
                      element_count = 2, offset_of_first = 0\<rparr>], closed = False\<rparr>,
         staging = OrderedBufferChain_new, closed_senders = [False, True, False],
         ordered = True\<rparr>,
        [(0, ChannelClose 0 1),
         (2, ChannelData 0 1 2 \<lparr>data = encode_string ''5'' @ encode_string ''6''\<rparr>),
         (2, ChannelClose 0 1)])"
  by (simp add: Scatter_def channel_close_def mk_BufferChainElement_zero Append_element_def
      push_back_snoc u_size_def Let_def cut_34 cut_56)

lemma scatter_worker2:
  "Scatter 0 2 \<lparr>elems = [], closed = True\<rparr> [0, 0, 0]
     \<lparr>target_chain = \<lparr>elems = [], closed = False\<rparr>, staging = OrderedBufferChain_new,
        closed_senders = [False, False, False], ordered = True\<rparr> =
   Inr (\<lparr>target_chain = \<lparr>elems = [], closed = False\<rparr>, staging = OrderedBufferChain_new,
         closed_senders = [False, False, True], ordered = True\<rparr>,
        [(0, ChannelClose 0 2), (1, ChannelClose 0 2)])"
  by (simp add: Scatter_def channel_close_def Let_def)

lemma allocate_three:
  "AllocateNetworkChannel clang 3 True =
     Inr \<lparr>target_chain = \<lparr>elems = [], closed = False\<rparr>, staging = OrderedBufferChain_new,
          closed_senders = [False, False, False], ordered = True\<rparr>"
  by (simp add: AllocateNetworkChannel_def BufferChain_new_eq numeral_3_eq_3)

lemma three_workers_partial_exchange:
  "Scatter_ThreeWorkers_PartialExchange clang =
     Inr ((''1'', ''2'', True), (''3'', ''4'', True), (''5'', ''6'', True))"
  unfolding Scatter_ThreeWorkers_PartialExchange_def allocate_three
    emit_all_12 emit_all_3456 emit_all_none
  apply (simp add: bind_err_Inr scatter_worker0 scatter_worker1 scatter_worker2)
  apply (simp add: bind_err_Inr channel_close_def MoveTo_eq staged_def OrderedBufferChain_new_def
        OrderedBufferChain_Append_def mk_BufferChainElement_zero push_back_snoc
        BinaryBuffer_of_def Close_def Let_def read_two_pair)
  done

end
